theory Spec2Isabelle
  imports Main "HOL-Library.Sublist"
begin

section \<open>The MJML serialiser of \<^verbatim>\<open>src/services/mjmlService.ts\<close>\<close>

text \<open>
  A shallow embedding of \<^verbatim>\<open>generateMJML\<close> and of its helpers.

  \<^item> A JavaScript string is a \<open>string\<close>; the characters are taken to be ASCII code units.
    \<^verbatim>\<open>trim\<close> removes the ASCII white space and line terminators,
    \<^verbatim>\<open>toLowerCase\<close> maps \<open>A\<close>..\<open>Z\<close> to \<open>a\<close>..\<open>z\<close>; every other character is left
    as it is.
  \<^item> A \<^verbatim>\<open>Record<string, string>\<close> is an association list in the order of
    \<^verbatim>\<open>Object.entries\<close> (insertion order; keys are attribute names, none of them an
    array index). Writing a property keeps the position of a key that is already there and
    appends a new key.
  \<^item> A \<^verbatim>\<open>Set<string>\<close> is a list without repetition in insertion order, which is the
    order in which a \<^verbatim>\<open>for ... of\<close> loop visits it.
  \<^item> An optional field is an \<open>option\<close>; \<^verbatim>\<open>el.id\<close> and \<^verbatim>\<open>el.type\<close> are
    \<open>el_id\<close> and \<open>el_type\<close>. A type is a string, so that a tree read from storage
    may carry a type that the registry does not know.
  \<^item> Every local constant of \<^verbatim>\<open>generateMJML\<close> is a definition of its own, under the
    name it has in the source, with the input tree as its argument.
  \<^item> \<^verbatim>\<open>MJML_COMPONENTS\<close> (\<^verbatim>\<open>src/constants\<close>) is a parameter \<open>reg\<close> of the functions
    that read it.
  \<^item> The source raises no exception of its own. The one exception that the engine raises on
    it, \<^verbatim>\<open>RangeError\<close> when the recursion exhausts the call stack, is the subject of
    the section on the call stack, where the functions return the exception or the value.
\<close>

subsection \<open>Strings\<close>

definition dq :: string where
  "dq = [CHR 0x22]"

definition isWhiteSpace :: "char \<Rightarrow> bool" where
  "isWhiteSpace c = (c \<in> set [CHR 0x09, CHR 0x0A, CHR 0x0B, CHR 0x0C, CHR 0x0D, CHR 0x20])"

text \<open>\<^verbatim>\<open>s.trim()\<close>\<close>

definition trim :: "string \<Rightarrow> string" where
  "trim s = rev (dropWhile isWhiteSpace (rev (dropWhile isWhiteSpace s)))"

definition lowerChar :: "char \<Rightarrow> char" where
  "lowerChar c =
     (case map_of (zip ''ABCDEFGHIJKLMNOPQRSTUVWXYZ'' ''abcdefghijklmnopqrstuvwxyz'') c of
        Some d \<Rightarrow> d
      | None \<Rightarrow> c)"

text \<open>\<^verbatim>\<open>s.toLowerCase()\<close>\<close>

definition toLowerCase :: "string \<Rightarrow> string" where
  "toLowerCase s = map lowerChar s"

text \<open>\<^verbatim>\<open>s.split(',')[0]\<close>: the part before the first comma, the whole string without one.\<close>

definition splitComma0 :: "string \<Rightarrow> string" where
  "splitComma0 s = takeWhile (\<lambda>c. c \<noteq> CHR '','') s"

definition isQuote :: "char \<Rightarrow> bool" where
  "isQuote c = (c = CHR 0x22 \<or> c = CHR 0x27)"

text \<open>
  \<^verbatim>\<open>s.replace(/^["']|["']$/g, '')\<close>: a quote character at the start is removed, then a
  quote character at the end of what is left.
\<close>

definition stripQuotes :: "string \<Rightarrow> string" where
  "stripQuotes s =
     (let s1 = (case s of [] \<Rightarrow> [] | c # cs \<Rightarrow> if isQuote c then cs else s)
      in if s1 \<noteq> [] \<and> isQuote (last s1) then butlast s1 else s1)"

text \<open>\<^verbatim>\<open>s.replace(/ /g, '+')\<close>\<close>

definition replaceSpaces :: "string \<Rightarrow> string" where
  "replaceSpaces s = map (\<lambda>c. if c = CHR '' '' then CHR ''+'' else c) s"

text \<open>\<^verbatim>\<open>xs.join(sep)\<close>\<close>

fun join :: "string \<Rightarrow> string list \<Rightarrow> string" where
  "join sep [] = []"
| "join sep [x] = x"
| "join sep (x # y # ys) = x @ sep @ join sep (y # ys)"

text \<open>\<^verbatim>\<open>xs.filter(Boolean)\<close> on strings: the empty string is the only falsy one.\<close>

definition filterBoolean :: "string list \<Rightarrow> string list" where
  "filterBoolean xs = filter (\<lambda>s. s \<noteq> []) xs"

text \<open>\<^verbatim>\<open>set.add(x)\<close>\<close>

definition setAdd :: "string \<Rightarrow> string list \<Rightarrow> string list" where
  "setAdd x xs = (if x \<in> set xs then xs else xs @ [x])"

subsection \<open>Data model\<close>

type_synonym attrs = "(string \<times> string) list"

datatype MJElement = MJElement
  (el_id: string)
  (el_type: string)
  (content: "string option")
  (attributes: attrs)
  (children: "MJElement list option")
  (hidden: "bool option")
  (label: "string option")

text \<open>
  Modelled from the spec: the entry type of \<^verbatim>\<open>MJML_COMPONENTS\<close>, whose declaration
  (\<^verbatim>\<open>src/constants\<close>) is not among the sources. The fields are those of the spec's
  Component Definition that the sources read (\<^verbatim>\<open>c.type\<close>, \<^verbatim>\<open>defaultAttrs\<close>,
  \<^verbatim>\<open>defaultContent\<close>, \<^verbatim>\<open>isContainer\<close>); \<open>comp_type\<close> is the field
  \<^verbatim>\<open>type\<close>. The table itself is never fixed: every property holds for any registry.
\<close>

record MJComponentDef =
  comp_type :: string
  defaultAttrs :: attrs
  defaultContent :: "string option"
  isContainer :: bool

text \<open>\<^verbatim>\<open>{ ...el, children: cs }\<close>\<close>

definition withChildren :: "MJElement \<Rightarrow> MJElement list \<Rightarrow> MJElement" where
  "withChildren el cs =
     MJElement (el_id el) (el_type el) (content el) (attributes el) (Some cs) (hidden el) (label el)"

text \<open>\<^verbatim>\<open>obj[k] = v\<close>\<close>

fun setProp :: "string \<Rightarrow> string \<Rightarrow> attrs \<Rightarrow> attrs" where
  "setProp k v [] = [(k, v)]"
| "setProp k v (p # ps) = (if fst p = k then (k, v) # ps else p # setProp k v ps)"

text \<open>The spread \<^verbatim>\<open>...src\<close> inside an object literal whose properties so far are \<open>tgt\<close>.\<close>

definition spread :: "attrs \<Rightarrow> attrs \<Rightarrow> attrs" where
  "spread src tgt = fold (\<lambda>(k, v). setProp k v) src tgt"

subsection \<open>Constants\<close>

definition HEAD_TYPES :: "string list" where
  "HEAD_TYPES = [''mj-attributes'', ''mj-breakpoint'', ''mj-font'', ''mj-html-attributes'',
     ''mj-preview'', ''mj-style'', ''mj-title'']"

definition SELF_CLOSING :: "string list" where
  "SELF_CLOSING = [''mj-breakpoint'', ''mj-font'', ''mj-image'', ''mj-divider'', ''mj-spacer'',
     ''mj-carousel-image'', ''mj-html-attributes'']"

definition SYSTEM_FONTS :: "string list" where
  "SYSTEM_FONTS = [''arial'', ''helvetica'', ''helvetica neue'', ''verdana'', ''tahoma'',
     ''trebuchet ms'', ''times new roman'', ''georgia'', ''garamond'', ''courier new'',
     ''courier'', ''palatino'', ''book antiqua'', ''impact'', ''comic sans ms'',
     ''lucida sans'', ''lucida grande'', ''sans-serif'', ''serif'', ''monospace'', ''cursive'',
     ''fantasy'']"

definition interUrl :: string where
  "interUrl = ''https://fonts.googleapis.com/css2?family=Inter:wght@300;400;500;700&display=swap''"

text \<open>The entries are (name, url).\<close>

definition DEFAULT_GOOGLE_FONTS :: "(string \<times> string) list" where
  "DEFAULT_GOOGLE_FONTS = [(''Inter'', interUrl)]"

subsection \<open>Font helpers\<close>

text \<open>The value of \<^verbatim>\<open>primary\<close> in \<^verbatim>\<open>collectFontsFromElements\<close>.\<close>

definition primary :: "string \<Rightarrow> string" where
  "primary ff = stripQuotes (trim (splitComma0 ff))"

text \<open>The inner function \<^verbatim>\<open>walk\<close>; the set \<^verbatim>\<open>fonts\<close> it writes to is passed through.\<close>

function walk :: "MJElement list \<Rightarrow> string list \<Rightarrow> string list" where
  "walk [] fonts = fonts"
| "walk (el # els) fonts =
     (let fonts1 =
        (case map_of (attributes el) ''font-family'' of
           None \<Rightarrow> fonts
         | Some ff \<Rightarrow>
             if ff \<noteq> [] then
               (if primary ff \<noteq> [] then setAdd (primary ff) fonts else fonts)
             else fonts);
          fonts2 = (case children el of None \<Rightarrow> fonts1 | Some cs \<Rightarrow> walk cs fonts1)
      in walk els fonts2)"
  by pat_completeness auto
termination
proof (relation "measure (\<lambda>(els, fonts). size_list size els)", goal_cases)
  case 1
  show ?case by simp
next
  case (2 el els fonts fonts1 cs)
  then show ?case by (cases el) simp
next
  case (3 el els fonts fonts1 fonts2)
  show ?case by simp
qed

definition collectFontsFromElements :: "MJElement list \<Rightarrow> string list" where
  "collectFontsFromElements elements = walk elements []"

definition googleFontsUrl :: "string \<Rightarrow> string" where
  "googleFontsUrl fontName =
     ''https://fonts.googleapis.com/css?family='' @ replaceSpaces (trim fontName)
       @ '':300,400,500,700''"

text \<open>The loop of \<^verbatim>\<open>declaredFontNames\<close>, with the set \<^verbatim>\<open>names\<close> passed through.\<close>

fun declaredLoop :: "MJElement list \<Rightarrow> string list \<Rightarrow> string list" where
  "declaredLoop [] names = names"
| "declaredLoop (el # els) names =
     declaredLoop els
       (case map_of (attributes el) ''name'' of
          None \<Rightarrow> names
        | Some n \<Rightarrow> if n \<noteq> [] then setAdd (toLowerCase (trim n)) names else names)"

definition declaredFontNames :: "MJElement list \<Rightarrow> string list" where
  "declaredFontNames fontEls = declaredLoop fontEls []"

subsection \<open>The serialiser\<close>

function stripHidden :: "MJElement list \<Rightarrow> MJElement list" where
  "stripHidden els =
     map (\<lambda>el. case children el of
                 Some cs \<Rightarrow> withChildren el (stripHidden cs)
               | None \<Rightarrow> el)
         (filter (\<lambda>el. hidden el \<noteq> Some True) els)"
  by pat_completeness auto
termination
proof (relation "measure (size_list size)", goal_cases)
  case 1
  show ?case by simp
next
  case (2 els el cs)
  then have mem: "el \<in> set els" and ch: "children el = Some cs"
    by simp_all
  from ch have "size_list size cs < size el"
    by (cases el) simp
  moreover from mem have "size el \<le> size_list size els"
    by (induction els) auto
  ultimately show ?case by simp
qed

declare stripHidden.simps [simp del]

definition visible :: "MJElement list \<Rightarrow> MJElement list" where
  "visible elements = stripHidden elements"

definition headEls :: "MJElement list \<Rightarrow> MJElement list" where
  "headEls elements = filter (\<lambda>el. el_type el \<in> set HEAD_TYPES) (visible elements)"

definition bodyEls :: "MJElement list \<Rightarrow> MJElement list" where
  "bodyEls elements = filter (\<lambda>el. el_type el \<notin> set HEAD_TYPES) (visible elements)"

text \<open>\<^verbatim>\<open>componentDef?.defaultAttrs ?? {}\<close>\<close>

definition registryDefaults :: "MJComponentDef list \<Rightarrow> string \<Rightarrow> attrs" where
  "registryDefaults reg t =
     (case find (\<lambda>c. comp_type c = t) reg of
        None \<Rightarrow> []
      | Some componentDef \<Rightarrow> defaultAttrs componentDef)"

definition mergedAttributes :: "MJComponentDef list \<Rightarrow> MJElement \<Rightarrow> attrs" where
  "mergedAttributes reg el =
     spread (attributes el) (spread (registryDefaults reg (el_type el)) [])"

text \<open>The entries that pass the filter \<^verbatim>\<open>v !== ''\<close>.\<close>

definition attrEntries :: "MJComponentDef list \<Rightarrow> MJElement \<Rightarrow> attrs" where
  "attrEntries reg el = filter (\<lambda>(k, v). v \<noteq> []) (mergedAttributes reg el)"

definition attrStr :: "MJComponentDef list \<Rightarrow> MJElement \<Rightarrow> string" where
  "attrStr reg el =
     (let attrs = join '' '' (map (\<lambda>(k, v). k @ ''='' @ dq @ v @ dq) (attrEntries reg el))
      in if attrs \<noteq> [] then '' '' @ attrs else [])"

function renderEl :: "MJComponentDef list \<Rightarrow> MJElement \<Rightarrow> string \<Rightarrow> string" where
  "renderEl reg el indent =
     (if el_type el \<in> set SELF_CLOSING then
        indent @ ''<'' @ el_type el @ attrStr reg el @ '' />''
      else
        (let children' =
               (case children el of
                  None \<Rightarrow> []
                | Some cs \<Rightarrow> join ''\<newline>'' (map (\<lambda>c. renderEl reg c (indent @ ''  '')) cs));
             content' = (case content el of None \<Rightarrow> [] | Some c \<Rightarrow> c);
             inner = join ''\<newline>'' (filterBoolean [content', children'])
         in if inner = [] then
              indent @ ''<'' @ el_type el @ attrStr reg el @ ''></'' @ el_type el @ ''>''
            else if CHR ''\<newline>'' \<in> set inner then
              indent @ ''<'' @ el_type el @ attrStr reg el @ ''>\<newline>'' @ inner
                @ ''\<newline>'' @ indent @ ''</'' @ el_type el @ ''>''
            else
              indent @ ''<'' @ el_type el @ attrStr reg el @ ''>'' @ inner
                @ ''</'' @ el_type el @ ''>''))"
  by pat_completeness auto
termination
proof (relation "measure (\<lambda>(reg, el, indent). size el)", goal_cases)
  case 1
  show ?case by simp
next
  case (2 reg el indent cs c)
  then have ch: "children el = Some cs" and mem: "c \<in> set cs"
    by simp_all
  from ch have "size_list size cs < size el"
    by (cases el) simp
  moreover from mem have "size c \<le> size_list size cs"
    by (induction cs) auto
  ultimately show ?case by simp
qed

declare renderEl.simps [simp del]

definition manualFontEls :: "MJElement list \<Rightarrow> MJElement list" where
  "manualFontEls elements = filter (\<lambda>el. el_type el = ''mj-font'') (headEls elements)"

text \<open>The template literal of both \<^verbatim>\<open>autoFontLines.push\<close> calls.\<close>

definition fontLine :: "string \<Rightarrow> string \<Rightarrow> string" where
  "fontLine name url =
     ''    <mj-font name='' @ dq @ name @ dq @ '' href='' @ dq @ url @ dq @ '' />''"

text \<open>
  Step 1, the loop over \<^verbatim>\<open>DEFAULT_GOOGLE_FONTS\<close>. The state is the pair of
  \<^verbatim>\<open>autoFontLines\<close> and \<^verbatim>\<open>alreadyDeclared\<close>.
\<close>

fun injectDefaults ::
  "(string \<times> string) list \<Rightarrow> string list \<times> string list \<Rightarrow> string list \<times> string list" where
  "injectDefaults [] st = st"
| "injectDefaults ((name, url) # ds) (autoFontLines, alreadyDeclared) =
     (if toLowerCase name \<notin> set alreadyDeclared then
        injectDefaults ds
          (autoFontLines @ [fontLine name url], setAdd (toLowerCase name) alreadyDeclared)
      else injectDefaults ds (autoFontLines, alreadyDeclared))"

text \<open>Step 2, the loop over \<^verbatim>\<open>usedFonts\<close>; it only reads \<^verbatim>\<open>alreadyDeclared\<close>.\<close>

fun injectUsed :: "string list \<Rightarrow> string list \<Rightarrow> string list \<Rightarrow> string list" where
  "injectUsed [] alreadyDeclared autoFontLines = autoFontLines"
| "injectUsed (font # fonts) alreadyDeclared autoFontLines =
     (if toLowerCase font \<in> set SYSTEM_FONTS then
        injectUsed fonts alreadyDeclared autoFontLines
      else if toLowerCase font \<in> set alreadyDeclared then
        injectUsed fonts alreadyDeclared autoFontLines
      else
        injectUsed fonts alreadyDeclared
          (autoFontLines @ [fontLine font (googleFontsUrl font)]))"

definition usedFonts :: "MJElement list \<Rightarrow> string list" where
  "usedFonts elements = collectFontsFromElements (bodyEls elements)"

definition autoFontLines :: "MJElement list \<Rightarrow> string list" where
  "autoFontLines elements =
     (let st = injectDefaults DEFAULT_GOOGLE_FONTS
                 ([], declaredFontNames (manualFontEls elements))
      in injectUsed (usedFonts elements) (snd st) (fst st))"

definition manualHeadLines :: "MJComponentDef list \<Rightarrow> MJElement list \<Rightarrow> string" where
  "manualHeadLines reg elements =
     join ''\<newline>'' (map (\<lambda>el. renderEl reg el ''    '') (headEls elements))"

definition autoFontBlock :: "MJElement list \<Rightarrow> string" where
  "autoFontBlock elements = join ''\<newline>'' (autoFontLines elements)"

definition headContent :: "MJComponentDef list \<Rightarrow> MJElement list \<Rightarrow> string" where
  "headContent reg elements =
     join ''\<newline>'' (filterBoolean [manualHeadLines reg elements, autoFontBlock elements])"

definition headBlock :: "MJComponentDef list \<Rightarrow> MJElement list \<Rightarrow> string" where
  "headBlock reg elements =
     (if headContent reg elements \<noteq> [] then
        ''  <mj-head>\<newline>'' @ headContent reg elements @ ''\<newline>  </mj-head>''
      else [])"

definition bodyBlock :: "MJComponentDef list \<Rightarrow> MJElement list \<Rightarrow> string" where
  "bodyBlock reg elements =
     ''  <mj-body>\<newline>''
       @ join ''\<newline>'' (map (\<lambda>el. renderEl reg el ''    '') (bodyEls elements))
       @ ''\<newline>  </mj-body>''"

definition generateMJML :: "MJComponentDef list \<Rightarrow> MJElement list \<Rightarrow> string" where
  "generateMJML reg elements =
     ''<mjml>\<newline>''
       @ join ''\<newline>'' (filterBoolean [headBlock reg elements, bodyBlock reg elements])
       @ ''\<newline></mjml>''"

subsection \<open>Notions used to state the properties\<close>

text \<open>
  Every node of a forest, parents before their children, in document order. The serialiser
  has no such function; the properties below speak about all nodes of a tree through it.
\<close>

function allNodes :: "MJElement list \<Rightarrow> MJElement list" where
  "allNodes [] = []"
| "allNodes (el # els) =
     el # (case children el of None \<Rightarrow> [] | Some cs \<Rightarrow> allNodes cs) @ allNodes els"
  by pat_completeness auto
termination
proof (relation "measure (size_list size)", goal_cases)
  case 1
  show ?case by simp
next
  case (2 el els cs)
  then show ?case by (cases el) simp
next
  case (3 el els)
  show ?case by simp
qed

text \<open>The primary font names that the nodes of a list contribute.\<close>

definition fontNamesOf :: "MJElement list \<Rightarrow> string set" where
  "fontNamesOf ns =
     {primary ff | el ff. el \<in> set ns
        \<and> map_of (attributes el) ''font-family'' = Some ff \<and> ff \<noteq> [] \<and> primary ff \<noteq> []}"

subsection \<open>Example trees\<close>

definition exRoboto :: MJElement where
  "exRoboto = MJElement ''f1'' ''mj-font'' None
     [(''name'', ''Roboto''), (''href'', ''https://example.org/roboto.css'')] None None None"

definition exGeorgiaText :: MJElement where
  "exGeorgiaText = MJElement ''t1'' ''mj-text'' (Some ''Hello'')
     [(''font-family'', ''Georgia'')] None None None"

definition exSection :: MJElement where
  "exSection = MJElement ''s1'' ''mj-section'' None [] (Some [exGeorgiaText]) None None"

definition exImage :: MJElement where
  "exImage = MJElement ''i1'' ''mj-image'' (Some ''ignored'')
     [(''src'', ''a.png''), (''alt'', [])] (Some [exGeorgiaText]) None None"

definition exRegistry :: "MJComponentDef list" where
  "exRegistry =
     [\<lparr>comp_type = ''mj-text'', defaultAttrs = [(''a'', ''1''), (''b'', ''2''), (''c'', ''4'')],
       defaultContent = Some ''Text'', isContainer = False\<rparr>,
      \<lparr>comp_type = ''mj-image'', defaultAttrs = [(''alt'', ''picture''), (''width'', ''100px'')],
       defaultContent = None, isContainer = False\<rparr>]"

definition exLiveText :: MJElement where
  "exLiveText = MJElement ''t2'' ''mj-text'' None [(''b'', ''3''), (''c'', [])] None None None"


text \<open>
  Three body nodes for the font walk: a section that uses \<open>Roboto\<close> and holds a text
  that uses \<open>roboto\<close> and a text that uses \<open>"Roboto", sans-serif\<close>, a text with an
  empty font family and a text without one.
\<close>

definition exFontTree :: "MJElement list" where
  "exFontTree =
     [MJElement ''s2'' ''mj-section'' None [(''font-family'', ''Roboto'')]
        (Some [MJElement ''t3'' ''mj-text'' (Some ''a'') [(''font-family'', ''roboto'')]
                 None None None,
               MJElement ''t4'' ''mj-text'' (Some ''b'')
                 [(''font-family'', dq @ ''Roboto'' @ dq @ '', sans-serif'')] None None None])
        None None,
      MJElement ''t5'' ''mj-text'' (Some ''c'') [(''font-family'', [])] None None None,
      MJElement ''t6'' ''mj-text'' (Some ''d'') [] None None None]"

text \<open>
  A body that uses \<open>Arial, sans-serif\<close>, \<open>GEORGIA\<close> and \<open>Roboto\<close>.
\<close>

definition exSystemTree :: "MJElement list" where
  "exSystemTree =
     [MJElement ''s3'' ''mj-section'' None []
        (Some [MJElement ''t7'' ''mj-text'' (Some ''a'')
                 [(''font-family'', ''Arial, sans-serif'')] None None None,
               MJElement ''t8'' ''mj-text'' (Some ''b'') [(''font-family'', ''GEORGIA'')]
                 None None None,
               MJElement ''t9'' ''mj-text'' (Some ''c'') [(''font-family'', ''Roboto'')]
                 None None None])
        None None]"



text \<open>
  A tree with hidden nodes: a hidden section holding a text that is not marked hidden itself,
  and a shown section holding a shown text, a hidden text and a hidden column with a text.
\<close>

definition exSecret :: MJElement where
  "exSecret = MJElement ''t-secret'' ''mj-text'' (Some ''Secret'') [] None None None"

definition exHiddenSection :: MJElement where
  "exHiddenSection =
     MJElement ''s-hidden'' ''mj-section'' None [] (Some [exSecret]) (Some True) None"

definition exHiddenTree :: "MJElement list" where
  "exHiddenTree =
     [exHiddenSection,
      MJElement ''s-shown'' ''mj-section'' None []
        (Some [MJElement ''t-shown'' ''mj-text'' (Some ''Shown'') [] None (Some False) None,
               MJElement ''t-gone'' ''mj-text'' (Some ''Gone'') [] None (Some True) None,
               MJElement ''c-gone'' ''mj-column'' None []
                 (Some [MJElement ''t-deep'' ''mj-text'' (Some ''Deep'') [] None None None])
                 (Some True) None])
        None None]"

text \<open>A title nested in a section, and the same title at top level.\<close>

definition exNestedTitle :: MJElement where
  "exNestedTitle = MJElement ''h1'' ''mj-title'' (Some ''T'') [] None None None"

definition exNestedTree :: "MJElement list" where
  "exNestedTree = [MJElement ''s5'' ''mj-section'' None [] (Some [exNestedTitle]) None None]"

text \<open>A title two levels down: section, column, title.\<close>

definition exDeepNestedTree :: "MJElement list" where
  "exDeepNestedTree =
     [MJElement ''s6'' ''mj-section'' None []
        (Some [MJElement ''c6'' ''mj-column'' None [] (Some [exNestedTitle]) None None])
        None None]"

text \<open>A manual declaration whose name is \<open>INTER\<close> with a space on either side.\<close>

definition exSpacedInter :: MJElement where
  "exSpacedInter = MJElement ''f3'' ''mj-font'' None
     [(''name'', '' INTER ''), (''href'', ''https://example.org/inter.css'')] None None None"




subsection \<open>The call stack\<close>










subsection \<open>Auxiliary facts\<close>

lemma stripHidden_Nil [simp]: "stripHidden [] = []"
  by (simp add: stripHidden.simps [of "[]"])

lemma stripHidden_Cons [simp]:
  "stripHidden (el # els) =
     (if hidden el = Some True then stripHidden els
      else (case children el of Some cs \<Rightarrow> withChildren el (stripHidden cs) | None \<Rightarrow> el)
             # stripHidden els)"
  unfolding stripHidden.simps [of "el # els"] stripHidden.simps [of els] by simp

lemma join_Nil_iff: "join sep xs = [] \<Longrightarrow> x \<in> set xs \<Longrightarrow> x = []"
  by (induction sep xs rule: join.induct) auto

lemma renderEl_nonempty: "renderEl reg el indent \<noteq> []"
  by (subst renderEl.simps) (simp add: Let_def)

lemma declaredLoop_set:
  "set (declaredLoop els names) =
     set names \<union> {toLowerCase (trim n) | el n.
        el \<in> set els \<and> map_of (attributes el) ''name'' = Some n \<and> n \<noteq> []}"
  by (induction els arbitrary: names) (auto simp: setAdd_def split: option.splits)

lemma declaredFontNames_set:
  "set (declaredFontNames els) =
     {toLowerCase (trim n) | el n.
        el \<in> set els \<and> map_of (attributes el) ''name'' = Some n \<and> n \<noteq> []}"
  by (simp add: declaredFontNames_def declaredLoop_set)

lemma toLowerCase_Inter: "toLowerCase ''Inter'' = ''inter''"
  by (simp add: toLowerCase_def lowerChar_def)

lemma injectUsed_eq:
  "injectUsed fonts declared lines =
     lines @ map (\<lambda>f. fontLine f (googleFontsUrl f))
       (filter (\<lambda>f. toLowerCase f \<notin> set SYSTEM_FONTS \<and> toLowerCase f \<notin> set declared) fonts)"
  by (induction fonts arbitrary: lines) simp_all

lemma autoFontLines_eq:
  "autoFontLines els =
     (if ''inter'' \<in> set (declaredFontNames (manualFontEls els)) then []
      else [fontLine ''Inter'' interUrl])
     @ map (\<lambda>f. fontLine f (googleFontsUrl f))
         (filter (\<lambda>f. toLowerCase f \<notin> set SYSTEM_FONTS
                     \<and> toLowerCase f \<notin> insert ''inter'' (set (declaredFontNames (manualFontEls els))))
            (usedFonts els))"
proof (cases "''inter'' \<in> set (declaredFontNames (manualFontEls els))")
  case True
  then have "insert ''inter'' (set (declaredFontNames (manualFontEls els)))
               = set (declaredFontNames (manualFontEls els))"
    by auto
  with True show ?thesis
    by (simp add: autoFontLines_def DEFAULT_GOOGLE_FONTS_def toLowerCase_Inter injectUsed_eq)
next
  case False
  then show ?thesis
    by (simp add: autoFontLines_def DEFAULT_GOOGLE_FONTS_def toLowerCase_Inter injectUsed_eq
          setAdd_def)
qed


lemma autoFontLines_undeclared:
  assumes "''inter'' \<notin> set (declaredFontNames (manualFontEls els))"
  shows "\<exists>new. autoFontLines els = fontLine ''Inter'' interUrl # new"
  using assms by (simp add: autoFontLines_eq)

lemma fontLine_nonempty: "fontLine n u \<noteq> []"
  by (simp add: fontLine_def)

lemma headContent_nonempty: "headContent reg els \<noteq> []"
proof (cases "''inter'' \<in> set (declaredFontNames (manualFontEls els))")
  case True
  then obtain el where "el \<in> set (manualFontEls els)"
    by (auto simp: declaredFontNames_set)
  then have "el \<in> set (headEls els)"
    by (simp add: manualFontEls_def)
  then have "renderEl reg el ''    '' \<in> set (map (\<lambda>el. renderEl reg el ''    '') (headEls els))"
    by simp
  then have "manualHeadLines reg els \<noteq> []"
    unfolding manualHeadLines_def using join_Nil_iff renderEl_nonempty by blast
  then show ?thesis
    by (simp add: headContent_def filterBoolean_def)
next
  case False
  then obtain new where "autoFontLines els = fontLine ''Inter'' interUrl # new"
    using autoFontLines_undeclared by blast
  then have "autoFontBlock els \<noteq> []"
    unfolding autoFontBlock_def using join_Nil_iff [of _ "autoFontLines els" "fontLine ''Inter'' interUrl"] fontLine_nonempty
    by auto
  then show ?thesis
    by (simp add: headContent_def filterBoolean_def)
qed

lemma generateMJML_shape:
  "generateMJML reg els =
     ''<mjml>\<newline>  <mj-head>\<newline>'' @ headContent reg els @ ''\<newline>  </mj-head>\<newline>''
       @ bodyBlock reg els @ ''\<newline></mjml>''"
  using headContent_nonempty [of reg els]
  by (simp add: generateMJML_def headBlock_def filterBoolean_def bodyBlock_def)


lemma sublist_join: "x \<in> set xs \<Longrightarrow> sublist x (join sep xs)"
proof (induction sep xs rule: join.induct)
  case (3 sep a b bs)
  show ?case
  proof (cases "x = a")
    case True
    then show ?thesis by simp
  next
    case False
    with 3 have "sublist x (join sep (b # bs))"
      by simp
    then have "sublist x ((a @ sep) @ join sep (b # bs))"
      unfolding sublist_append by blast
    then show ?thesis by simp
  qed
qed simp_all

lemma sublist_trans: "sublist xs ys \<Longrightarrow> sublist ys zs \<Longrightarrow> sublist xs zs"
  by (rule sublist_order.order.trans)

lemma sublist_autoFontLine_headContent:
  assumes "l \<in> set (autoFontLines els)" and "l \<noteq> []"
  shows "sublist l (headContent reg els)"
proof -
  have a: "sublist l (autoFontBlock els)"
    unfolding autoFontBlock_def using assms(1) by (rule sublist_join)
  with assms(2) have "autoFontBlock els \<noteq> []"
    by auto
  then have "autoFontBlock els \<in> set (filterBoolean [manualHeadLines reg els, autoFontBlock els])"
    by (simp add: filterBoolean_def)
  then have "sublist (autoFontBlock els) (headContent reg els)"
    unfolding headContent_def by (rule sublist_join)
  with a show ?thesis
    by (rule sublist_trans)
qed

lemma sublist_headContent_generateMJML:
  "sublist (headContent reg els) (generateMJML reg els)"
  unfolding generateMJML_shape by (rule sublist_appendI)

lemma generateMJML_empty:
  "generateMJML reg [] =
     ''<mjml>\<newline>  <mj-head>\<newline>'' @ fontLine ''Inter'' interUrl
       @ ''\<newline>  </mj-head>\<newline>  <mj-body>\<newline>\<newline>  </mj-body>\<newline></mjml>''"
  by (simp add: generateMJML_shape headContent_def manualHeadLines_def headEls_def visible_def
      autoFontBlock_def autoFontLines_eq manualFontEls_def declaredFontNames_def
      usedFonts_def bodyEls_def collectFontsFromElements_def
      filterBoolean_def fontLine_nonempty bodyBlock_def)

lemma map_of_setProp: "map_of (setProp k v ps) = (map_of ps)(k \<mapsto> v)"
  by (induction ps) auto

lemma keys_setProp: "fst ` set (setProp k v ps) = insert k (fst ` set ps)"
  by (induction ps) auto

lemma distinct_setProp:
  "distinct (map fst ps) \<Longrightarrow> distinct (map fst (setProp k v ps))"
  by (induction ps) (auto simp: keys_setProp)

lemma distinct_spread:
  "distinct (map fst tgt) \<Longrightarrow> distinct (map fst (spread src tgt))"
  unfolding spread_def
  by (induction src arbitrary: tgt) (auto simp: distinct_setProp)

lemma map_of_spread_rev: "map_of (spread src tgt) = map_of tgt ++ map_of (rev src)"
  unfolding spread_def
proof (induction src arbitrary: tgt)
  case Nil
  show ?case by simp
next
  case (Cons p src)
  obtain k v where p: "p = (k, v)"
    by (cases p)
  show ?case
    by (auto simp: p Cons.IH map_of_setProp fun_eq_iff map_add_def split: option.splits)
qed

lemma map_of_rev_distinct: "distinct (map fst xs) \<Longrightarrow> map_of (rev xs) = map_of xs"
proof (induction xs)
  case Nil
  show ?case by simp
next
  case (Cons p xs)
  then have "fst p \<notin> dom (map_of (rev xs))"
    by (simp add: dom_map_of_conv_image_fst)
  then have "map_of [p] ++ map_of (rev xs) = (map_of (rev xs))(fst p \<mapsto> snd p)"
    by (cases p) (auto simp: fun_eq_iff map_add_def split: option.splits)
  with Cons show ?case
    by (cases p) simp
qed

lemma map_of_spread:
  "distinct (map fst src) \<Longrightarrow>
   map_of (spread src tgt) k = (case map_of src k of Some v \<Rightarrow> Some v | None \<Rightarrow> map_of tgt k)"
  by (simp add: map_of_spread_rev map_of_rev_distinct map_add_def)

lemma map_of_mergedAttributes:
  assumes "distinct (map fst (attributes el))"
    and "distinct (map fst (registryDefaults reg (el_type el)))"
  shows "map_of (mergedAttributes reg el) k =
     (case map_of (attributes el) k of
        Some v \<Rightarrow> Some v
      | None \<Rightarrow> map_of (registryDefaults reg (el_type el)) k)"
  using assms by (simp add: mergedAttributes_def map_of_spread split: option.splits)

lemma distinct_mergedAttributes: "distinct (map fst (mergedAttributes reg el))"
  by (simp add: mergedAttributes_def distinct_spread)

lemma distinct_attrEntries: "distinct (map fst (attrEntries reg el))"
  unfolding attrEntries_def using distinct_mergedAttributes [of reg el]
  by (rule distinct_map_filter)

lemma attrEntries_iff:
  "(k, v) \<in> set (attrEntries reg el) \<longleftrightarrow> v \<noteq> [] \<and> map_of (mergedAttributes reg el) k = Some v"
  using distinct_mergedAttributes [of reg el] by (auto simp: attrEntries_def)

lemma renderEl_self_closing:
  "el_type el \<in> set SELF_CLOSING \<Longrightarrow>
   renderEl reg el indent = indent @ ''<'' @ el_type el @ attrStr reg el @ '' />''"
  by (subst renderEl.simps) simp

text \<open>
  Claim C10. For every registry and every input tree the assembled head content is not
  empty, so the head block is the \<^verbatim>\<open><mj-head>\<close> wrapper around it and the document is
  the root element around head block and body block: the branch that leaves the wrapper out is
  never taken. Either the Inter declaration is among the auto-injected lines and the
  auto-font block is not empty, or a visible top-level \<^verbatim>\<open>mj-font\<close> node declares Inter
  and the rendered manual head lines are not empty.
\<close>

theorem head_wrapper_always_emitted:
  "headContent reg els \<noteq> []
   \<and> headBlock reg els = ''  <mj-head>\<newline>'' @ headContent reg els @ ''\<newline>  </mj-head>''
   \<and> generateMJML reg els =
       ''<mjml>\<newline>'' @ headBlock reg els @ ''\<newline>'' @ bodyBlock reg els @ ''\<newline></mjml>''
   \<and> (fontLine ''Inter'' interUrl \<in> set (autoFontLines els) \<and> autoFontBlock els \<noteq> []
      \<or> (\<exists>el \<in> set (manualFontEls els). \<exists>n.
            map_of (attributes el) ''name'' = Some n \<and> toLowerCase (trim n) = ''inter'')
        \<and> manualHeadLines reg els \<noteq> [])"
proof -
  have hc: "headContent reg els \<noteq> []"
    by (rule headContent_nonempty)
  then have hb: "headBlock reg els = ''  <mj-head>\<newline>'' @ headContent reg els @ ''\<newline>  </mj-head>''"
    by (simp add: headBlock_def)
  have gen: "generateMJML reg els =
       ''<mjml>\<newline>'' @ headBlock reg els @ ''\<newline>'' @ bodyBlock reg els @ ''\<newline></mjml>''"
    unfolding hb by (simp add: generateMJML_shape)
  have alt: "fontLine ''Inter'' interUrl \<in> set (autoFontLines els) \<and> autoFontBlock els \<noteq> []
      \<or> (\<exists>el \<in> set (manualFontEls els). \<exists>n.
            map_of (attributes el) ''name'' = Some n \<and> toLowerCase (trim n) = ''inter'')
        \<and> manualHeadLines reg els \<noteq> []"
  proof (cases "''inter'' \<in> set (declaredFontNames (manualFontEls els))")
    case True
    then obtain el n where el: "el \<in> set (manualFontEls els)"
      and n: "map_of (attributes el) ''name'' = Some n" "toLowerCase (trim n) = ''inter''"
      by (auto simp: declaredFontNames_set)
    from el have "el \<in> set (headEls els)"
      by (simp add: manualFontEls_def)
    then have "renderEl reg el ''    '' \<in> set (map (\<lambda>el. renderEl reg el ''    '') (headEls els))"
      by simp
    then have "manualHeadLines reg els \<noteq> []"
      unfolding manualHeadLines_def using join_Nil_iff renderEl_nonempty by blast
    with el n show ?thesis by blast
  next
    case False
    then have mem: "fontLine ''Inter'' interUrl \<in> set (autoFontLines els)"
      by (simp add: autoFontLines_eq)
    then have "autoFontBlock els \<noteq> []"
      unfolding autoFontBlock_def using join_Nil_iff fontLine_nonempty by blast
    with mem show ?thesis by blast
  qed
  from hc hb gen alt show ?thesis by blast
qed

lemmas string_defs = dq_def isWhiteSpace_def trim_def lowerChar_def toLowerCase_def
  splitComma0_def isQuote_def stripQuotes_def replaceSpaces_def filterBoolean_def setAdd_def

lemmas attr_defs = attrStr_def attrEntries_def mergedAttributes_def registryDefaults_def
  spread_def

lemma renderEl_open:
  "el_type el \<notin> set SELF_CLOSING \<Longrightarrow>
   renderEl reg el indent =
     (let children' =
            (case children el of
               None \<Rightarrow> []
             | Some cs \<Rightarrow> join ''\<newline>'' (map (\<lambda>c. renderEl reg c (indent @ ''  '')) cs));
          content' = (case content el of None \<Rightarrow> [] | Some c \<Rightarrow> c);
          inner = join ''\<newline>'' (filterBoolean [content', children'])
      in if inner = [] then
           indent @ ''<'' @ el_type el @ attrStr reg el @ ''></'' @ el_type el @ ''>''
         else if CHR ''\<newline>'' \<in> set inner then
           indent @ ''<'' @ el_type el @ attrStr reg el @ ''>\<newline>'' @ inner
             @ ''\<newline>'' @ indent @ ''</'' @ el_type el @ ''>''
         else
           indent @ ''<'' @ el_type el @ attrStr reg el @ ''>'' @ inner
             @ ''</'' @ el_type el @ ''>'')"
  by (subst renderEl.simps) simp

lemma attrStr_cong:
  "el_type el' = el_type el \<Longrightarrow> attributes el' = attributes el \<Longrightarrow>
   attrStr reg el' = attrStr reg el"
  by (simp add: attr_defs)

text \<open>
  Claim C3. \<^verbatim>\<open>SELF_CLOSING\<close> holds exactly the seven listed types. A node of such a
  type renders as the single empty-element tag made of the indentation, the type and the
  attribute string; the attribute string lists the entries of the merged attributes whose
  value is not empty. The result is the same whatever the node's content and children (and
  id, hidden flag and label) are.
\<close>

theorem self_closing_fidelity:
  "set SELF_CLOSING = {''mj-breakpoint'', ''mj-font'', ''mj-image'', ''mj-divider'',
      ''mj-spacer'', ''mj-carousel-image'', ''mj-html-attributes''}
   \<and> (el_type el \<in> set SELF_CLOSING \<longrightarrow>
        renderEl reg el indent = indent @ ''<'' @ el_type el @ attrStr reg el @ '' />''
        \<and> attrStr reg el =
            (if attrEntries reg el = [] then []
             else '' '' @ join '' '' (map (\<lambda>(k, v). k @ ''='' @ dq @ v @ dq) (attrEntries reg el)))
        \<and> (\<forall>i c ch h l.
              renderEl reg (MJElement i (el_type el) c (attributes el) ch h l) indent
                = renderEl reg el indent))"
proof -
  have a: "attrStr reg el =
            (if attrEntries reg el = [] then []
             else '' '' @ join '' '' (map (\<lambda>(k, v). k @ ''='' @ dq @ v @ dq) (attrEntries reg el)))"
  proof (cases "attrEntries reg el")
    case Nil
    then show ?thesis by (simp add: attrStr_def)
  next
    case (Cons p ps)
    obtain k v where p: "p = (k, v)"
      by (cases p)
    have "(k @ ''='' @ dq @ v @ dq) \<in> set (map (\<lambda>(k, v). k @ ''='' @ dq @ v @ dq) (attrEntries reg el))"
      by (simp add: Cons p)
    then have "join '' '' (map (\<lambda>(k, v). k @ ''='' @ dq @ v @ dq) (attrEntries reg el)) \<noteq> []"
      using join_Nil_iff by fastforce
    then show ?thesis by (simp add: attrStr_def Let_def Cons)
  qed
  have b: "renderEl reg (MJElement i (el_type el) c (attributes el) ch h l) indent
                = renderEl reg el indent" if "el_type el \<in> set SELF_CLOSING" for i c ch h l
  proof -
    have "attrStr reg (MJElement i (el_type el) c (attributes el) ch h l) = attrStr reg el"
      by (rule attrStr_cong) simp_all
    with that show ?thesis
      by (simp add: renderEl_self_closing)
  qed
  have c: "set SELF_CLOSING = {''mj-breakpoint'', ''mj-font'', ''mj-image'', ''mj-divider'',
      ''mj-spacer'', ''mj-carousel-image'', ''mj-html-attributes''}"
    by (simp add: SELF_CLOSING_def)
  from a b c renderEl_self_closing [of el reg indent] show ?thesis
    by blast
qed

theorem self_closing_fidelity_witness:
  "el_type exImage \<in> set SELF_CLOSING
   \<and> content exImage = Some ''ignored''
   \<and> children exImage = Some [exGeorgiaText]
   \<and> renderEl exRegistry exImage ''    ''
       = ''    <mj-image width='' @ dq @ ''100px'' @ dq @ '' src='' @ dq @ ''a.png'' @ dq
           @ '' />''"
proof -
  have t: "el_type exImage \<in> set SELF_CLOSING"
    by (simp add: exImage_def SELF_CLOSING_def)
  have r: "renderEl exRegistry exImage ''    ''
             = ''    '' @ ''<'' @ el_type exImage @ attrStr exRegistry exImage @ '' />''"
    by (rule self_closing_fidelity [of exImage exRegistry "''    ''",
          THEN conjunct2, THEN mp, OF t, THEN conjunct1])
  have "attrEntries exRegistry exImage = [(''width'', ''100px''), (''src'', ''a.png'')]"
    by (simp add: exImage_def exRegistry_def attrEntries_def mergedAttributes_def
          registryDefaults_def spread_def)
  then have "attrStr exRegistry exImage
               = '' width='' @ dq @ ''100px'' @ dq @ '' src='' @ dq @ ''a.png'' @ dq"
    by (simp add: attrStr_def dq_def)
  with r t show ?thesis
    by (simp add: exImage_def)
qed







lemma fontNamesOf_Nil [simp]: "fontNamesOf [] = {}"
  by (simp add: fontNamesOf_def)

lemma fontNamesOf_append [simp]: "fontNamesOf (xs @ ys) = fontNamesOf xs \<union> fontNamesOf ys"
  by (auto simp: fontNamesOf_def)

lemma fontNamesOf_Cons: "fontNamesOf (x # xs) = fontNamesOf [x] \<union> fontNamesOf xs"
  using fontNamesOf_append [of "[x]" xs] by simp

lemma set_fold_setAdd: "set (fold setAdd xs acc) = set xs \<union> set acc"
  by (induction xs arbitrary: acc) (auto simp: setAdd_def)

lemma distinct_fold_setAdd: "distinct acc \<Longrightarrow> distinct (fold setAdd xs acc)"
  by (induction xs arbitrary: acc) (auto simp: setAdd_def)

lemma walk_set: "set (walk els fonts) = set fonts \<union> fontNamesOf (allNodes els)"
proof (induction els fonts rule: walk.induct)
  case (1 fonts)
  show ?case by simp
next
  case (2 el els fonts)
  define fonts1 where "fonts1 =
        (case map_of (attributes el) ''font-family'' of
           None \<Rightarrow> fonts
         | Some ff \<Rightarrow>
             if ff \<noteq> [] then
               (if primary ff \<noteq> [] then setAdd (primary ff) fonts else fonts)
             else fonts)"
  define fonts2 where "fonts2 = (case children el of None \<Rightarrow> fonts1 | Some cs \<Rightarrow> walk cs fonts1)"
  define kids where "kids = (case children el of None \<Rightarrow> [] | Some cs \<Rightarrow> allNodes cs)"
  have w: "walk (el # els) fonts = walk els fonts2"
    unfolding fonts1_def fonts2_def by (simp add: Let_def)
  have s1: "set fonts1 = set fonts \<union> fontNamesOf [el]"
    by (auto simp: fonts1_def setAdd_def fontNamesOf_def split: option.splits if_splits)
  have s2: "set fonts2 = set fonts1 \<union> fontNamesOf kids"
  proof (cases "children el")
    case None
    then show ?thesis by (simp add: fonts2_def kids_def)
  next
    case (Some cs)
    then show ?thesis
      using "2.IH"(1) [OF fonts1_def Some] by (simp add: fonts2_def kids_def)
  qed
  have s3: "set (walk els fonts2) = set fonts2 \<union> fontNamesOf (allNodes els)"
    by (rule "2.IH"(2) [OF fonts1_def fonts2_def])
  have "allNodes (el # els) = [el] @ kids @ allNodes els"
    by (simp add: kids_def)
  then have "fontNamesOf (allNodes (el # els))
               = fontNamesOf [el] \<union> fontNamesOf kids \<union> fontNamesOf (allNodes els)"
    by (simp only: fontNamesOf_append Un_assoc)
  with w s1 s2 s3 show ?case
    by (simp only: Un_assoc)
qed

lemma walk_distinct: "distinct fonts \<Longrightarrow> distinct (walk els fonts)"
proof (induction els fonts rule: walk.induct)
  case (1 fonts)
  then show ?case by simp
next
  case (2 el els fonts)
  define fonts1 where "fonts1 =
        (case map_of (attributes el) ''font-family'' of
           None \<Rightarrow> fonts
         | Some ff \<Rightarrow>
             if ff \<noteq> [] then
               (if primary ff \<noteq> [] then setAdd (primary ff) fonts else fonts)
             else fonts)"
  define fonts2 where "fonts2 = (case children el of None \<Rightarrow> fonts1 | Some cs \<Rightarrow> walk cs fonts1)"
  have w: "walk (el # els) fonts = walk els fonts2"
    unfolding fonts1_def fonts2_def by (simp add: Let_def)
  from "2.prems" have d1: "distinct fonts1"
    by (auto simp: fonts1_def setAdd_def split: option.splits)
  have d2: "distinct fonts2"
  proof (cases "children el")
    case None
    with d1 show ?thesis by (simp add: fonts2_def)
  next
    case (Some cs)
    then show ?thesis
      using "2.IH"(1) [OF fonts1_def Some d1] by (simp add: fonts2_def)
  qed
  show ?case
    unfolding w by (rule "2.IH"(2) [OF fonts1_def fonts2_def d2])
qed

text \<open>
  Claim C7. The names collected from a forest are the primary names of the non-empty
  \<^verbatim>\<open>font-family\<close> values of all its nodes, at any depth, that are not empty themselves;
  each name is collected once, and two names that differ only in case are two names. The
  primary name is the part before the first comma, trimmed, with a quote character removed
  at its start and at its end. \<open>"Open Sans", Arial, sans-serif\<close> gives \<open>Open Sans\<close> and
  \<open>Georgia\<close> gives \<open>Georgia\<close>; only one layer of quotes is removed.
\<close>

theorem primary_font_name_extraction:
  "set (collectFontsFromElements els) =
     {primary ff | el ff. el \<in> set (allNodes els)
        \<and> map_of (attributes el) ''font-family'' = Some ff \<and> ff \<noteq> [] \<and> primary ff \<noteq> []}
   \<and> distinct (collectFontsFromElements els)
   \<and> usedFonts els = collectFontsFromElements (bodyEls els)
   \<and> primary ff = stripQuotes (trim (takeWhile (\<lambda>c. c \<noteq> CHR '','') ff))
   \<and> primary (dq @ ''Open Sans'' @ dq @ '', Arial, sans-serif'') = ''Open Sans''
   \<and> primary ''Georgia'' = ''Georgia''
   \<and> primary ([CHR 0x27] @ ''Open Sans'' @ [CHR 0x27] @ '' , serif'') = ''Open Sans''
   \<and> primary (''  Roboto Slab  ,serif'') = ''Roboto Slab''
   \<and> primary (dq @ dq @ ''Lato'' @ dq @ dq) = dq @ ''Lato'' @ dq
   \<and> primary '','' = []
   \<and> collectFontsFromElements exFontTree = [''Roboto'', ''roboto'']"
proof -
  have "primary (dq @ ''Open Sans'' @ dq @ '', Arial, sans-serif'') = ''Open Sans''"
    by (simp add: primary_def string_defs)
  moreover have "primary ''Georgia'' = ''Georgia''"
    by (simp add: primary_def string_defs)
  moreover have "primary ([CHR 0x27] @ ''Open Sans'' @ [CHR 0x27] @ '' , serif'') = ''Open Sans''"
    by (simp add: primary_def string_defs)
  moreover have "primary (''  Roboto Slab  ,serif'') = ''Roboto Slab''"
    by (simp add: primary_def string_defs)
  moreover have "primary (dq @ dq @ ''Lato'' @ dq @ dq) = dq @ ''Lato'' @ dq"
    by (simp add: primary_def string_defs)
  moreover have "primary '','' = []"
    by (simp add: primary_def string_defs)
  moreover have "collectFontsFromElements exFontTree = [''Roboto'', ''roboto'']"
    by (simp add: collectFontsFromElements_def exFontTree_def primary_def string_defs)
  moreover have "primary ff = stripQuotes (trim (takeWhile (\<lambda>c. c \<noteq> CHR '','') ff))"
    by (simp add: primary_def splitComma0_def)
  moreover have "set (collectFontsFromElements els) =
     {primary ff | el ff. el \<in> set (allNodes els)
        \<and> map_of (attributes el) ''font-family'' = Some ff \<and> ff \<noteq> [] \<and> primary ff \<noteq> []}"
    by (simp add: collectFontsFromElements_def walk_set fontNamesOf_def)
  moreover have "distinct (collectFontsFromElements els)"
    by (simp add: collectFontsFromElements_def walk_distinct)
  ultimately show ?thesis
    by (simp only: usedFonts_def simp_thms)
qed

lemma length_trim_le: "length (trim s) \<le> length (dropWhile isWhiteSpace s)"
  unfolding trim_def using length_dropWhile_le [of isWhiteSpace "rev (dropWhile isWhiteSpace s)"]
  by simp

lemma length_dropWhile_mid:
  "\<not> P u \<Longrightarrow> Suc (length ys) \<le> length (dropWhile P (xs @ u # ys))"
  by (induction xs) auto

lemma length_trim_append:
  assumes "\<not> isWhiteSpace u"
  shows "Suc (length (trim f)) \<le> length (trim (f @ u # us))"
proof -
  have "dropWhile isWhiteSpace (f @ u # us) = dropWhile isWhiteSpace f @ u # us"
    using assms by (rule dropWhile_append3)
  then have "trim (f @ u # us)
               = rev (dropWhile isWhiteSpace (rev us @ u # rev (dropWhile isWhiteSpace f)))"
    by (simp add: trim_def)
  then have "Suc (length (dropWhile isWhiteSpace f)) \<le> length (trim (f @ u # us))"
    using length_dropWhile_mid [of isWhiteSpace u "rev (dropWhile isWhiteSpace f)" "rev us"]
      assms
    by simp
  with length_trim_le [of f] show ?thesis
    by simp
qed

lemma length_googleFontsUrl: "length (googleFontsUrl f) = 56 + length (trim f)"
  by (simp add: googleFontsUrl_def replaceSpaces_def)

lemma fontLine_inj_aux:
  assumes eq: "f @ dq @ '' href='' @ dq @ googleFontsUrl f @ r
             = (f @ u # us) @ dq @ '' href='' @ dq @ googleFontsUrl (f @ u # us) @ r"
  shows False
proof -
  from eq have "dq @ '' href='' @ dq @ googleFontsUrl f @ r
             = (u # us) @ dq @ '' href='' @ dq @ googleFontsUrl (f @ u # us) @ r"
    by simp
  then have u: "u = CHR 0x22"
    by (simp add: dq_def)
  then have nw: "\<not> isWhiteSpace u"
    by (simp add: isWhiteSpace_def)
  from eq have "length (f @ dq @ '' href='' @ dq @ googleFontsUrl f @ r)
             = length ((f @ u # us) @ dq @ '' href='' @ dq @ googleFontsUrl (f @ u # us) @ r)"
    by (rule arg_cong)
  then have "length (trim f) = Suc (length us) + length (trim (f @ u # us))"
    by (simp add: length_googleFontsUrl)
  with length_trim_append [OF nw, of f us] show False
    by simp
qed

lemma fontLine_inj:
  assumes "fontLine f (googleFontsUrl f) = fontLine g (googleFontsUrl g)"
  shows "f = g"
proof -
  define r where "r = dq @ '' />''"
  from assms have eq: "f @ dq @ '' href='' @ dq @ googleFontsUrl f @ r
             = g @ dq @ '' href='' @ dq @ googleFontsUrl g @ r"
    by (simp add: fontLine_def r_def)
  then obtain us where "f = g @ us \<or> g = f @ us"
    by (auto simp: append_eq_append_conv2)
  then show ?thesis
  proof
    assume f: "f = g @ us"
    show ?thesis
    proof (cases us)
      case Nil
      with f show ?thesis by simp
    next
      case (Cons u us')
      with f eq fontLine_inj_aux [of g r u us'] show ?thesis
        by simp
    qed
  next
    assume g: "g = f @ us"
    show ?thesis
    proof (cases us)
      case Nil
      with g show ?thesis by simp
    next
      case (Cons u us')
      with g eq fontLine_inj_aux [of f r u us'] show ?thesis
        by simp
    qed
  qed
qed

lemma fontLine_not_Inter: "fontLine f (googleFontsUrl f) \<noteq> fontLine ''Inter'' interUrl"
proof
  assume "fontLine f (googleFontsUrl f) = fontLine ''Inter'' interUrl"
  then have "rev (fontLine f (googleFontsUrl f)) = rev (fontLine ''Inter'' interUrl)"
    by (rule arg_cong)
  then show False
    by (simp add: fontLine_def googleFontsUrl_def interUrl_def dq_def)
qed

lemma autoFontLines_iff:
  "fontLine f (googleFontsUrl f) \<in> set (autoFontLines els) \<longleftrightarrow>
     f \<in> set (usedFonts els) \<and> toLowerCase f \<notin> set SYSTEM_FONTS \<and> toLowerCase f \<noteq> ''inter''
     \<and> toLowerCase f \<notin> set (declaredFontNames (manualFontEls els))"
  by (auto simp: autoFontLines_eq fontLine_not_Inter dest: fontLine_inj)



text \<open>
  Claim C6. For a name whose lower-cased form is in \<^verbatim>\<open>SYSTEM_FONTS\<close>, the declaration
  that step 2 would push for it is not among the auto-injected lines. Every auto-injected
  line is the Inter baseline or the declaration of a font used in the body whose lower-cased
  name is not a system font. The test is on the lower-cased name: \<open>Arial\<close> and
  \<open>GeOrGiA\<close> are system fonts.
\<close>

theorem system_font_exclusion:
  "(toLowerCase f \<in> set SYSTEM_FONTS \<longrightarrow>
      fontLine f (googleFontsUrl f) \<notin> set (autoFontLines els))
   \<and> (\<forall>l \<in> set (autoFontLines els).
         l = fontLine ''Inter'' interUrl
         \<or> (\<exists>g \<in> set (usedFonts els).
               toLowerCase g \<notin> set SYSTEM_FONTS \<and> l = fontLine g (googleFontsUrl g)))
   \<and> toLowerCase ''Arial'' \<in> set SYSTEM_FONTS
   \<and> toLowerCase ''GeOrGiA'' \<in> set SYSTEM_FONTS"
proof -
  have a: "toLowerCase f \<in> set SYSTEM_FONTS \<longrightarrow>
      fontLine f (googleFontsUrl f) \<notin> set (autoFontLines els)"
    by (simp add: autoFontLines_iff)
  have b: "\<forall>l \<in> set (autoFontLines els).
         l = fontLine ''Inter'' interUrl
         \<or> (\<exists>g \<in> set (usedFonts els).
               toLowerCase g \<notin> set SYSTEM_FONTS \<and> l = fontLine g (googleFontsUrl g))"
    by (auto simp: autoFontLines_eq)
  have c: "toLowerCase ''Arial'' \<in> set SYSTEM_FONTS"
    by (simp add: toLowerCase_def lowerChar_def SYSTEM_FONTS_def)
  have d: "toLowerCase ''GeOrGiA'' \<in> set SYSTEM_FONTS"
    by (simp add: toLowerCase_def lowerChar_def SYSTEM_FONTS_def)
  from a b c d show ?thesis
    by (intro conjI)
qed

theorem system_font_exclusion_witness:
  "usedFonts exSystemTree = [''Arial'', ''GEORGIA'', ''Roboto'']
   \<and> toLowerCase ''Arial'' \<in> set SYSTEM_FONTS
   \<and> fontLine ''Arial'' (googleFontsUrl ''Arial'') \<notin> set (autoFontLines exSystemTree)
   \<and> toLowerCase ''GEORGIA'' \<in> set SYSTEM_FONTS
   \<and> fontLine ''GEORGIA'' (googleFontsUrl ''GEORGIA'') \<notin> set (autoFontLines exSystemTree)"
proof -
  have u: "usedFonts exSystemTree = [''Arial'', ''GEORGIA'', ''Roboto'']"
    by (simp add: usedFonts_def bodyEls_def visible_def exSystemTree_def HEAD_TYPES_def
          withChildren_def collectFontsFromElements_def primary_def string_defs)
  have a: "toLowerCase ''Arial'' \<in> set SYSTEM_FONTS"
    by (simp add: toLowerCase_def lowerChar_def SYSTEM_FONTS_def)
  have g: "toLowerCase ''GEORGIA'' \<in> set SYSTEM_FONTS"
    by (simp add: toLowerCase_def lowerChar_def SYSTEM_FONTS_def)
  note t = system_font_exclusion [THEN conjunct1, THEN mp]
  from u a g t [of "''Arial''" exSystemTree, OF a] t [of "''GEORGIA''" exSystemTree, OF g]
  show ?thesis
    by (intro conjI)
qed

lemma withChildren_sel [simp]:
  "el_id (withChildren el cs) = el_id el"
  "el_type (withChildren el cs) = el_type el"
  "content (withChildren el cs) = content el"
  "attributes (withChildren el cs) = attributes el"
  "children (withChildren el cs) = Some cs"
  "hidden (withChildren el cs) = hidden el"
  "label (withChildren el cs) = label el"
  by (simp_all add: withChildren_def)

lemma withChildren_same: "children el = Some cs \<Longrightarrow> withChildren el cs = el"
  by (cases el) (simp add: withChildren_def)

lemma allNodes_descendants:
  "h \<in> set (allNodes xs) \<Longrightarrow> set (allNodes [h]) \<subseteq> set (allNodes xs)"
proof (induction xs rule: allNodes.induct)
  case 1
  then show ?case by simp
next
  case (2 el els)
  show ?case
  proof (cases "children el")
    case None
    with 2 show ?thesis by auto
  next
    case (Some cs)
    with 2 show ?thesis by auto
  qed
qed

lemma stripHidden_none_hidden:
  "n \<in> set (allNodes (stripHidden els)) \<Longrightarrow> hidden n \<noteq> Some True"
proof (induction els arbitrary: n rule: allNodes.induct)
  case 1
  then show ?case by simp
next
  case (2 el els)
  show ?case
  proof (cases "children el")
    case None
    with 2 show ?thesis by (auto split: if_splits)
  next
    case (Some cs)
    with 2 show ?thesis by (auto split: if_splits)
  qed
qed

lemma stripHidden_ids:
  "el_id ` set (allNodes (stripHidden els)) \<subseteq> el_id ` set (allNodes els)"
proof (induction els rule: allNodes.induct)
  case 1
  show ?case by simp
next
  case (2 el els)
  show ?case
  proof (cases "children el")
    case None
    with 2 show ?thesis by auto
  next
    case (Some cs)
    with 2 show ?thesis by (auto simp: image_Un)
  qed
qed

lemma stripHidden_identity:
  "(\<And>n. n \<in> set (allNodes els) \<Longrightarrow> hidden n \<noteq> Some True) \<Longrightarrow> stripHidden els = els"
proof (induction els rule: allNodes.induct)
  case 1
  show ?case by simp
next
  case (2 el els)
  show ?case
  proof (cases "children el")
    case None
    with 2 show ?thesis by simp
  next
    case (Some cs)
    with 2 have "stripHidden cs = cs" and "stripHidden els = els" and "hidden el \<noteq> Some True"
      by simp_all
    with Some show ?thesis
      by (simp add: withChildren_same)
  qed
qed

lemma stripHidden_idem: "stripHidden (stripHidden els) = stripHidden els"
  by (rule stripHidden_identity) (rule stripHidden_none_hidden)


lemma hidden_subtree_removed:
  assumes "distinct (map el_id (allNodes els))"
    and "h \<in> set (allNodes els)" and "hidden h = Some True"
    and "d \<in> set (allNodes [h])"
  shows "el_id d \<notin> el_id ` set (allNodes (stripHidden els))"
  using assms
proof (induction els rule: allNodes.induct)
  case 1
  then show ?case by simp
next
  case (2 el els)
  define kids where "kids = (case children el of None \<Rightarrow> [] | Some cs \<Rightarrow> allNodes cs)"
  define kept where
    "kept = (case children el of None \<Rightarrow> [] | Some cs \<Rightarrow> allNodes (stripHidden cs))"
  have all: "allNodes (el # els) = el # kids @ allNodes els"
    by (simp add: kids_def)
  have kept_ids: "el_id ` set kept \<subseteq> el_id ` set kids"
  proof (cases "children el")
    case None
    then show ?thesis by (simp add: kept_def kids_def)
  next
    case (Some cs)
    then show ?thesis
      using stripHidden_ids [of cs] by (simp add: kept_def kids_def)
  qed
  have tail_ids: "el_id ` set (allNodes (stripHidden els)) \<subseteq> el_id ` set (allNodes els)"
    by (rule stripHidden_ids)
  from "2.prems"(1) have dist: "el_id el \<notin> el_id ` set kids"
    "el_id el \<notin> el_id ` set (allNodes els)"
    "el_id ` set kids \<inter> el_id ` set (allNodes els) = {}"
    "distinct (map el_id kids)" "distinct (map el_id (allNodes els))"
    unfolding all by auto
  have copy: "el_id ` set (allNodes (stripHidden (el # els))) \<subseteq>
      (if hidden el = Some True then {} else insert (el_id el) (el_id ` set kept))
        \<union> el_id ` set (allNodes (stripHidden els))"
    by (cases "children el") (auto simp: kept_def)
  from "2.prems"(2) consider (self) "h = el" | (kid) "h \<in> set kids"
    | (tail) "h \<in> set (allNodes els)"
    unfolding all by auto
  then show ?case
  proof cases
    case self
    with "2.prems"(4) have "d = el \<or> d \<in> set kids"
      by (cases "children el") (auto simp: kids_def)
    with dist tail_ids have "el_id d \<notin> el_id ` set (allNodes (stripHidden els))"
      by blast
    with self "2.prems"(3) have "el_id d \<notin>
      (if hidden el = Some True then {} else insert (el_id el) (el_id ` set kept))
        \<union> el_id ` set (allNodes (stripHidden els))"
      by simp
    with copy show ?thesis
      by blast
  next
    case kid
    then obtain cs where cs: "children el = Some cs" and hcs: "h \<in> set (allNodes cs)"
      by (cases "children el") (auto simp: kids_def)
    from hcs "2.prems"(4) allNodes_descendants have dk: "d \<in> set kids"
      by (auto simp: kids_def cs)
    from dist(4) have "distinct (map el_id (allNodes cs))"
      by (simp add: kids_def cs)
    then have "el_id d \<notin> el_id ` set (allNodes (stripHidden cs))"
      using hcs "2.prems"(3,4) by (rule "2.IH"(1) [OF cs])
    then have a: "el_id d \<notin> el_id ` set kept"
      by (simp add: kept_def cs)
    from dk dist(1) have b: "el_id d \<noteq> el_id el"
      by (metis imageI)
    from dk dist(3) tail_ids have c: "el_id d \<notin> el_id ` set (allNodes (stripHidden els))"
      by blast
    from a b c have "el_id d \<notin>
      (if hidden el = Some True then {} else insert (el_id el) (el_id ` set kept))
        \<union> el_id ` set (allNodes (stripHidden els))"
      by simp
    with copy show ?thesis
      by blast
  next
    case tail
    with "2.prems"(4) allNodes_descendants have dt: "d \<in> set (allNodes els)"
      by blast
    from dist(5) tail "2.prems"(3,4)
    have c: "el_id d \<notin> el_id ` set (allNodes (stripHidden els))"
      by (rule "2.IH"(2))
    from dt dist(2) have b: "el_id d \<noteq> el_id el"
      by (metis imageI)
    from dt dist(3) kept_ids have a: "el_id d \<notin> el_id ` set kept"
      by blast
    from a b c have "el_id d \<notin>
      (if hidden el = Some True then {} else insert (el_id el) (el_id ` set kept))
        \<union> el_id ` set (allNodes (stripHidden els))"
      by simp
    with copy show ?thesis
      by blast
  qed
qed

lemma generateMJML_visible:
  "visible els = visible els' \<Longrightarrow> generateMJML reg els = generateMJML reg els'"
  by (simp add: generateMJML_def headBlock_def bodyBlock_def headContent_def
        manualHeadLines_def autoFontBlock_def autoFontLines_def manualFontEls_def usedFonts_def
        headEls_def bodyEls_def)


lemmas serialiser_defs = generateMJML_shape headContent_def manualHeadLines_def
  autoFontBlock_def autoFontLines_eq manualFontEls_def declaredFontNames_def usedFonts_def
  collectFontsFromElements_def headEls_def bodyEls_def visible_def bodyBlock_def
  HEAD_TYPES_def SELF_CLOSING_def SYSTEM_FONTS_def withChildren_def primary_def
  renderEl_open renderEl_self_closing

text \<open>
  Claim C1. The serialiser works on \<open>visible els = stripHidden els\<close>. \<^verbatim>\<open>stripHidden\<close> drops
  a node whose hidden flag is true, with everything below it, and keeps any other node with
  its children filtered in the same way. No node of the filtered copy is hidden, filtering
  the copy again changes nothing, and a tree without hidden nodes is its own copy. The
  document is computed from the filtered copy alone: it is the document of the copy, and two
  trees with the same copy have the same document. When the ids of the tree are unique, the
  id of a hidden node and the id of every node below it (whatever its own flag) do not occur
  in the copy.
\<close>

theorem hidden_node_exclusion:
  "visible els = stripHidden els
   \<and> stripHidden [] = []
   \<and> stripHidden (e # es) =
       (if hidden e = Some True then stripHidden es
        else (case children e of Some cs \<Rightarrow> withChildren e (stripHidden cs) | None \<Rightarrow> e)
               # stripHidden es)
   \<and> (\<forall>n \<in> set (allNodes (stripHidden els)). hidden n \<noteq> Some True)
   \<and> stripHidden (stripHidden els) = stripHidden els
   \<and> generateMJML reg els = generateMJML reg (stripHidden els)
   \<and> (visible els = visible els' \<longrightarrow> generateMJML reg els = generateMJML reg els')
   \<and> (distinct (map el_id (allNodes els)) \<longrightarrow>
        (\<forall>h \<in> set (allNodes els). hidden h = Some True \<longrightarrow>
           (\<forall>d \<in> set (allNodes [h]).
              el_id d \<notin> el_id ` set (allNodes (stripHidden els)))))
   \<and> ((\<forall>n \<in> set (allNodes els). hidden n \<noteq> Some True) \<longrightarrow> stripHidden els = els)"
proof -
  have c1: "visible els = stripHidden els"
    by (rule visible_def)
  have c2: "stripHidden [] = []"
    by (rule stripHidden_Nil)
  have c3: "stripHidden (e # es) =
       (if hidden e = Some True then stripHidden es
        else (case children e of Some cs \<Rightarrow> withChildren e (stripHidden cs) | None \<Rightarrow> e)
               # stripHidden es)"
    by (rule stripHidden_Cons)
  have c4: "\<forall>n \<in> set (allNodes (stripHidden els)). hidden n \<noteq> Some True"
    using stripHidden_none_hidden by blast
  have c5: "stripHidden (stripHidden els) = stripHidden els"
    by (rule stripHidden_idem)
  have c6: "generateMJML reg els = generateMJML reg (stripHidden els)"
    by (rule generateMJML_visible) (simp add: visible_def stripHidden_idem)
  have c7: "visible els = visible els' \<longrightarrow> generateMJML reg els = generateMJML reg els'"
    using generateMJML_visible by blast
  have c8: "distinct (map el_id (allNodes els)) \<longrightarrow>
        (\<forall>h \<in> set (allNodes els). hidden h = Some True \<longrightarrow>
           (\<forall>d \<in> set (allNodes [h]).
              el_id d \<notin> el_id ` set (allNodes (stripHidden els))))"
    using hidden_subtree_removed by blast
  have c9: "(\<forall>n \<in> set (allNodes els). hidden n \<noteq> Some True) \<longrightarrow> stripHidden els = els"
    using stripHidden_identity by blast
  from c1 c2 c3 c4 c5 c6 c7 c8 c9 show ?thesis
    by (intro conjI)
qed

theorem hidden_node_exclusion_witness:
  "distinct (map el_id (allNodes exHiddenTree))
   \<and> exHiddenSection \<in> set (allNodes exHiddenTree)
   \<and> hidden exHiddenSection = Some True
   \<and> exSecret \<in> set (allNodes [exHiddenSection])
   \<and> hidden exSecret = None
   \<and> el_id exSecret \<notin> el_id ` set (allNodes (stripHidden exHiddenTree))
   \<and> stripHidden exHiddenTree =
       [MJElement ''s-shown'' ''mj-section'' None []
          (Some [MJElement ''t-shown'' ''mj-text'' (Some ''Shown'') [] None (Some False) None])
          None None]
   \<and> generateMJML [] exHiddenTree =
       ''<mjml>\<newline>  <mj-head>\<newline>'' @ fontLine ''Inter'' interUrl
         @ ''\<newline>  </mj-head>\<newline>  <mj-body>\<newline>''
         @ ''    <mj-section>      <mj-text>Shown</mj-text></mj-section>''
         @ ''\<newline>  </mj-body>\<newline></mjml>''"
proof -
  have d: "distinct (map el_id (allNodes exHiddenTree))"
    by (simp add: exHiddenTree_def exHiddenSection_def exSecret_def)
  have h: "exHiddenSection \<in> set (allNodes exHiddenTree)"
    by (simp add: exHiddenTree_def)
  have hh: "hidden exHiddenSection = Some True"
    by (simp add: exHiddenSection_def)
  have s: "exSecret \<in> set (allNodes [exHiddenSection])"
    by (simp add: exHiddenSection_def)
  have sh: "hidden exSecret = None"
    by (simp add: exSecret_def)
  have r: "el_id exSecret \<notin> el_id ` set (allNodes (stripHidden exHiddenTree))"
    by (rule hidden_node_exclusion [of exHiddenTree _ _ "[]" "[]", THEN conjunct2,
          THEN conjunct2, THEN conjunct2, THEN conjunct2, THEN conjunct2, THEN conjunct2,
          THEN conjunct2, THEN conjunct1, THEN mp, OF d, THEN bspec, OF h, THEN mp, OF hh,
          THEN bspec, OF s])
  have v: "stripHidden exHiddenTree =
       [MJElement ''s-shown'' ''mj-section'' None []
          (Some [MJElement ''t-shown'' ''mj-text'' (Some ''Shown'') [] None (Some False) None])
          None None]"
    by (simp add: exHiddenTree_def exHiddenSection_def withChildren_def)
  have g: "generateMJML [] exHiddenTree =
       ''<mjml>\<newline>  <mj-head>\<newline>'' @ fontLine ''Inter'' interUrl
         @ ''\<newline>  </mj-head>\<newline>  <mj-body>\<newline>''
         @ ''    <mj-section>      <mj-text>Shown</mj-text></mj-section>''
         @ ''\<newline>  </mj-body>\<newline></mjml>''"
    by (simp add: serialiser_defs v attr_defs string_defs fontLine_nonempty)
  from d h hh s sh r v g show ?thesis
    by (intro conjI)
qed

text \<open>
  Claim C8. The serialiser does not do what the claim says. \<^verbatim>\<open>generateMJML\<close> tests the
  type of the top-level nodes only, and \<^verbatim>\<open>renderEl\<close> renders every child in place. For
  a title nested in a section, and for a title nested in a column of a section, the title is
  a node of the filtered tree whose type is in \<^verbatim>\<open>HEAD_TYPES\<close>, there is no head node,
  and the document shows the title inside \<^verbatim>\<open>mj-body\<close>, while the head holds the Inter
  declaration only.
\<close>

theorem nested_head_type_rendered_in_body:
  "exNestedTitle \<in> set (allNodes (visible exNestedTree))
   \<and> el_type exNestedTitle \<in> set HEAD_TYPES
   \<and> exNestedTitle \<notin> set (headEls exNestedTree)
   \<and> headEls exNestedTree = []
   \<and> generateMJML [] exNestedTree =
       ''<mjml>\<newline>  <mj-head>\<newline>'' @ fontLine ''Inter'' interUrl
         @ ''\<newline>  </mj-head>\<newline>  <mj-body>\<newline>''
         @ ''    <mj-section>      <mj-title>T</mj-title></mj-section>''
         @ ''\<newline>  </mj-body>\<newline></mjml>''
   \<and> exNestedTitle \<in> set (allNodes (visible exDeepNestedTree))
   \<and> headEls exDeepNestedTree = []
   \<and> generateMJML [] exDeepNestedTree =
       ''<mjml>\<newline>  <mj-head>\<newline>'' @ fontLine ''Inter'' interUrl
         @ ''\<newline>  </mj-head>\<newline>  <mj-body>\<newline>''
         @ ''    <mj-section>      <mj-column>        <mj-title>T</mj-title></mj-column></mj-section>''
         @ ''\<newline>  </mj-body>\<newline></mjml>''"
proof -
  have v: "visible exNestedTree = exNestedTree"
    by (simp add: visible_def exNestedTree_def exNestedTitle_def withChildren_def)
  have a: "exNestedTitle \<in> set (allNodes (visible exNestedTree))"
    unfolding v by (simp add: exNestedTree_def)
  have b: "el_type exNestedTitle \<in> set HEAD_TYPES"
    by (simp add: exNestedTitle_def HEAD_TYPES_def)
  have c: "headEls exNestedTree = []"
    by (simp add: headEls_def v) (simp add: exNestedTree_def HEAD_TYPES_def)
  then have d: "exNestedTitle \<notin> set (headEls exNestedTree)"
    by simp
  have e: "generateMJML [] exNestedTree =
       ''<mjml>\<newline>  <mj-head>\<newline>'' @ fontLine ''Inter'' interUrl
         @ ''\<newline>  </mj-head>\<newline>  <mj-body>\<newline>''
         @ ''    <mj-section>      <mj-title>T</mj-title></mj-section>''
         @ ''\<newline>  </mj-body>\<newline></mjml>''"
    by (simp add: serialiser_defs attr_defs string_defs fontLine_nonempty exNestedTree_def
          exNestedTitle_def)
  have v': "visible exDeepNestedTree = exDeepNestedTree"
    by (simp add: visible_def exDeepNestedTree_def exNestedTitle_def withChildren_def)
  have a': "exNestedTitle \<in> set (allNodes (visible exDeepNestedTree))"
    unfolding v' by (simp add: exDeepNestedTree_def)
  have c': "headEls exDeepNestedTree = []"
    by (simp add: headEls_def v') (simp add: exDeepNestedTree_def HEAD_TYPES_def)
  have e': "generateMJML [] exDeepNestedTree =
       ''<mjml>\<newline>  <mj-head>\<newline>'' @ fontLine ''Inter'' interUrl
         @ ''\<newline>  </mj-head>\<newline>  <mj-body>\<newline>''
         @ ''    <mj-section>      <mj-column>        <mj-title>T</mj-title></mj-column></mj-section>''
         @ ''\<newline>  </mj-body>\<newline></mjml>''"
    by (simp add: serialiser_defs attr_defs string_defs fontLine_nonempty exDeepNestedTree_def
          exNestedTitle_def)
  from a b d c e a' c' e' show ?thesis
    by (intro conjI)
qed

text \<open>
  Claim C4, as stated, fails. A manual font node named \<open>INTER\<close> with a space on either
  side does not match the baseline name case-insensitively, since its lower-cased name is
  not \<open>inter\<close>; yet \<^verbatim>\<open>declaredFontNames\<close> trims the name first, so the baseline is
  counted as declared and no Inter declaration is injected: the head holds the manual line
  only.
\<close>

theorem baseline_untrimmed_name_counterexample:
  "manualFontEls [exSpacedInter] = [exSpacedInter]
   \<and> map_of (attributes exSpacedInter) ''name'' = Some '' INTER ''
   \<and> toLowerCase '' INTER '' \<noteq> toLowerCase ''Inter''
   \<and> toLowerCase (trim '' INTER '') = toLowerCase ''Inter''
   \<and> autoFontLines [exSpacedInter] = []
   \<and> fontLine ''Inter'' interUrl \<notin> set (autoFontLines [exSpacedInter])
   \<and> generateMJML [] [exSpacedInter] =
       ''<mjml>\<newline>  <mj-head>\<newline>    <mj-font name='' @ dq @ '' INTER '' @ dq @ '' href='' @ dq
         @ ''https://example.org/inter.css'' @ dq
         @ '' />\<newline>  </mj-head>\<newline>  <mj-body>\<newline>\<newline>  </mj-body>\<newline></mjml>''"
proof -
  have a: "manualFontEls [exSpacedInter] = [exSpacedInter]"
    by (simp add: manualFontEls_def headEls_def visible_def exSpacedInter_def HEAD_TYPES_def)
  have b: "map_of (attributes exSpacedInter) ''name'' = Some '' INTER ''"
    by (simp add: exSpacedInter_def)
  have c: "toLowerCase '' INTER '' \<noteq> toLowerCase ''Inter''"
    by (simp add: string_defs)
  have d: "toLowerCase (trim '' INTER '') = toLowerCase ''Inter''"
    by (simp add: string_defs)
  have u: "usedFonts [exSpacedInter] = []"
    by (simp add: usedFonts_def bodyEls_def visible_def exSpacedInter_def HEAD_TYPES_def
          collectFontsFromElements_def)
  have "declaredFontNames (manualFontEls [exSpacedInter]) = [''inter'']"
    unfolding a by (simp add: declaredFontNames_def exSpacedInter_def string_defs)
  then have e: "autoFontLines [exSpacedInter] = []"
    by (simp add: autoFontLines_eq u)
  then have f: "fontLine ''Inter'' interUrl \<notin> set (autoFontLines [exSpacedInter])"
    by simp
  have g: "generateMJML [] [exSpacedInter] =
       ''<mjml>\<newline>  <mj-head>\<newline>    <mj-font name='' @ dq @ '' INTER '' @ dq @ '' href='' @ dq
         @ ''https://example.org/inter.css'' @ dq
         @ '' />\<newline>  </mj-head>\<newline>  <mj-body>\<newline>\<newline>  </mj-body>\<newline></mjml>''"
  proof -
    have ab: "autoFontBlock [exSpacedInter] = []"
      by (simp add: autoFontBlock_def e)
    have mh: "manualHeadLines [] [exSpacedInter] =
        ''    <mj-font name='' @ dq @ '' INTER '' @ dq @ '' href='' @ dq
          @ ''https://example.org/inter.css'' @ dq @ '' />''"
      by (simp add: manualHeadLines_def headEls_def visible_def renderEl_self_closing
            exSpacedInter_def HEAD_TYPES_def SELF_CLOSING_def attr_defs dq_def)
    have bb: "bodyBlock [] [exSpacedInter] = ''  <mj-body>\<newline>\<newline>  </mj-body>''"
      by (simp add: bodyBlock_def bodyEls_def visible_def exSpacedInter_def HEAD_TYPES_def)
    show ?thesis
      by (simp add: generateMJML_shape headContent_def ab mh bb filterBoolean_def dq_def)
  qed
  from a b c d e f g show ?thesis
    by (intro conjI)
qed

text \<open>
  Claim C4, amended. The match between a manual font node and a baseline entry is on the
  node's name trimmed and lower-cased. Every entry of \<^verbatim>\<open>DEFAULT_GOOGLE_FONTS\<close> whose
  lower-cased name is not the trimmed, lower-cased name of any visible top-level
  \<^verbatim>\<open>mj-font\<close> node has its declaration among the auto-injected lines, inside the head
  content and inside the document, whatever the body uses. The only entry is Inter with its
  fixed URL. The empty tree serialises to a document whose head holds the Inter declaration
  and whose body wrapper holds nothing.
\<close>

theorem baseline_always_injected:
  "(\<forall>(name, url) \<in> set DEFAULT_GOOGLE_FONTS.
      (\<forall>el \<in> set (manualFontEls els). \<forall>n.
          map_of (attributes el) ''name'' = Some n \<longrightarrow> toLowerCase (trim n) \<noteq> toLowerCase name)
      \<longrightarrow> fontLine name url \<in> set (autoFontLines els)
          \<and> sublist (fontLine name url) (headContent reg els)
          \<and> sublist (fontLine name url) (generateMJML reg els))
   \<and> DEFAULT_GOOGLE_FONTS = [(''Inter'',
        ''https://fonts.googleapis.com/css2?family=Inter:wght@300;400;500;700&display=swap'')]
   \<and> generateMJML reg [] =
       ''<mjml>\<newline>  <mj-head>\<newline>    <mj-font name='' @ dq @ ''Inter'' @ dq @ '' href='' @ dq
         @ ''https://fonts.googleapis.com/css2?family=Inter:wght@300;400;500;700&display=swap''
         @ dq @ '' />\<newline>  </mj-head>\<newline>  <mj-body>\<newline>\<newline>  </mj-body>\<newline></mjml>''"
proof -
  have "fontLine ''Inter'' interUrl \<in> set (autoFontLines els)
          \<and> sublist (fontLine ''Inter'' interUrl) (headContent reg els)
          \<and> sublist (fontLine ''Inter'' interUrl) (generateMJML reg els)"
    if h: "\<forall>el \<in> set (manualFontEls els). \<forall>n.
          map_of (attributes el) ''name'' = Some n \<longrightarrow> toLowerCase (trim n) \<noteq> toLowerCase ''Inter''"
  proof -
    from h have "''inter'' \<notin> set (declaredFontNames (manualFontEls els))"
      by (auto simp: declaredFontNames_set toLowerCase_Inter)
    then have mem: "fontLine ''Inter'' interUrl \<in> set (autoFontLines els)"
      by (simp add: autoFontLines_eq)
    then have sub: "sublist (fontLine ''Inter'' interUrl) (headContent reg els)"
      using fontLine_nonempty by (rule sublist_autoFontLine_headContent)
    then have "sublist (fontLine ''Inter'' interUrl) (generateMJML reg els)"
      using sublist_headContent_generateMJML by (rule sublist_trans)
    with mem sub show ?thesis by blast
  qed
  moreover have "generateMJML reg [] =
       ''<mjml>\<newline>  <mj-head>\<newline>    <mj-font name='' @ dq @ ''Inter'' @ dq @ '' href='' @ dq
         @ ''https://fonts.googleapis.com/css2?family=Inter:wght@300;400;500;700&display=swap''
         @ dq @ '' />\<newline>  </mj-head>\<newline>  <mj-body>\<newline>\<newline>  </mj-body>\<newline></mjml>''"
    by (simp add: generateMJML_empty fontLine_def interUrl_def)
  ultimately show ?thesis
    by (simp add: DEFAULT_GOOGLE_FONTS_def interUrl_def)
qed


theorem baseline_always_injected_witness:
  "fontLine ''Inter'' interUrl \<in> set (autoFontLines [exRoboto, exSection])
   \<and> sublist (fontLine ''Inter'' interUrl) (headContent [] [exRoboto, exSection])
   \<and> sublist (fontLine ''Inter'' interUrl) (generateMJML [] [exRoboto, exSection])"
  using baseline_always_injected [of "[exRoboto, exSection]" "[]"]
  by (simp add: DEFAULT_GOOGLE_FONTS_def manualFontEls_def headEls_def visible_def
        exRoboto_def exSection_def exGeorgiaText_def HEAD_TYPES_def withChildren_def
        toLowerCase_def lowerChar_def trim_def isWhiteSpace_def interUrl_def)

lemma join_nonempty: "x \<in> set xs \<Longrightarrow> x \<noteq> [] \<Longrightarrow> join sep xs \<noteq> []"
  using join_Nil_iff by blast

lemma attrs_concat:
  "(\<And>x. x \<in> set xs \<Longrightarrow> x \<noteq> []) \<Longrightarrow>
   (let attrs = join '' '' xs in if attrs \<noteq> [] then '' '' @ attrs else [])
     = concat (map (\<lambda>x. '' '' @ x) xs)"
proof (induction "'' ''" xs rule: join.induct)
  case 1
  show ?case by simp
next
  case (2 x)
  then show ?case by simp
next
  case (3 x y ys)
  then have "join '' '' (y # ys) \<noteq> []"
    using join_nonempty [of y "y # ys" "'' ''"] by simp
  with 3 show ?case
    by (simp add: Let_def)
qed

lemma attrStr_concat:
  "attrStr reg el
     = concat (map (\<lambda>(k, v). '' '' @ k @ ''='' @ dq @ v @ dq) (attrEntries reg el))"
proof -
  have "attrStr reg el =
      (let attrs = join '' '' (map (\<lambda>(k, v). k @ ''='' @ dq @ v @ dq) (attrEntries reg el))
       in if attrs \<noteq> [] then '' '' @ attrs else [])"
    by (simp add: attrStr_def)
  also have "\<dots> = concat (map (\<lambda>x. '' '' @ x)
      (map (\<lambda>(k, v). k @ ''='' @ dq @ v @ dq) (attrEntries reg el)))"
    by (rule attrs_concat) auto
  also have "\<dots> = concat (map (\<lambda>(k, v). '' '' @ k @ ''='' @ dq @ v @ dq) (attrEntries reg el))"
    by (simp add: case_prod_unfold comp_def)
  finally show ?thesis .
qed

lemma renderEl_tag:
  "\<exists>rest. renderEl reg el indent = indent @ ''<'' @ el_type el @ attrStr reg el @ rest
     \<and> (rest = '' />'' \<or> (\<exists>inner. rest = ''>'' @ inner @ ''</'' @ el_type el @ ''>''))"
proof (cases "el_type el \<in> set SELF_CLOSING")
  case True
  then show ?thesis
    by (simp add: renderEl_self_closing)
next
  case False
  define inner where "inner = join ''\<newline>'' (filterBoolean
     [case content el of None \<Rightarrow> [] | Some c \<Rightarrow> c,
      case children el of None \<Rightarrow> []
      | Some cs \<Rightarrow> join ''\<newline>'' (map (\<lambda>c. renderEl reg c (indent @ ''  '')) cs)])"
  have eq: "renderEl reg el indent = indent @ ''<'' @ el_type el @ attrStr reg el @ ''>'' @
      (if inner = [] then []
       else if CHR ''\<newline>'' \<in> set inner then ''\<newline>'' @ inner @ ''\<newline>'' @ indent
       else inner) @ ''</'' @ el_type el @ ''>''"
    using False by (simp add: renderEl_open Let_def inner_def)
  define rest where "rest = ''>'' @
      (if inner = [] then []
       else if CHR ''\<newline>'' \<in> set inner then ''\<newline>'' @ inner @ ''\<newline>'' @ indent
       else inner) @ ''</'' @ el_type el @ ''>''"
  have "renderEl reg el indent = indent @ ''<'' @ el_type el @ attrStr reg el @ rest"
    unfolding rest_def by (rule eq)
  moreover have "\<exists>inner. rest = ''>'' @ inner @ ''</'' @ el_type el @ ''>''"
    unfolding rest_def by (rule exI) (rule refl)
  ultimately show ?thesis
    by blast
qed


lemma sublist_concat_map: "x \<in> set xs \<Longrightarrow> sublist (f x) (concat (map f xs))"
proof -
  assume "x \<in> set xs"
  then obtain as bs where "xs = as @ x # bs"
    by (auto dest: split_list)
  then have "concat (map f xs) = concat (map f as) @ f x @ concat (map f bs)"
    by simp
  then show ?thesis
    by (simp only: sublist_appendI)
qed

text \<open>
  Claim C2. Every rendered node starts with its indentation, \<open><\<close>, its type and then,
  for each emitted entry in order, a space and \<open>key="value"\<close>, followed by the end of the
  tag; nothing else stands between the type and the end of the opening tag. For a node and a
  registry entry whose attribute objects have unique keys, the merged attributes give every
  key the node's live value when the node has the key and the registry default of the node's
  type otherwise; the emitted entries are the merged ones whose value is not empty, each key
  at most once. So a live attribute set to the empty string is not among the entries of the
  emitted tag, whatever the default, and a non-empty default of a key the node does not have
  is among them and its \<open>key="value"\<close> is part of the rendering.
\<close>

theorem effective_attribute_emission:
  assumes "distinct (map fst (attributes el))"
    and "distinct (map fst (registryDefaults reg (el_type el)))"
  shows "(\<exists>rest. renderEl reg el indent =
             indent @ ''<'' @ el_type el
               @ concat (map (\<lambda>(k, v). '' '' @ k @ ''='' @ dq @ v @ dq) (attrEntries reg el))
               @ rest
           \<and> (rest = '' />'' \<or> (\<exists>inner. rest = ''>'' @ inner @ ''</'' @ el_type el @ ''>'')))
         \<and> map_of (mergedAttributes reg el) k =
           (case map_of (attributes el) k of
              Some v \<Rightarrow> Some v
            | None \<Rightarrow> map_of (registryDefaults reg (el_type el)) k)
         \<and> attrEntries reg el = filter (\<lambda>(k, v). v \<noteq> []) (mergedAttributes reg el)
         \<and> distinct (map fst (attrEntries reg el))
         \<and> ((k, v) \<in> set (attrEntries reg el) \<longleftrightarrow>
               v \<noteq> [] \<and>
               (case map_of (attributes el) k of
                  Some w \<Rightarrow> w = v
                | None \<Rightarrow> map_of (registryDefaults reg (el_type el)) k = Some v))
         \<and> (map_of (attributes el) k = Some [] \<longrightarrow> k \<notin> fst ` set (attrEntries reg el))
         \<and> (map_of (attributes el) k = None
               \<and> map_of (registryDefaults reg (el_type el)) k = Some v \<and> v \<noteq> []
              \<longrightarrow> (k, v) \<in> set (attrEntries reg el)
                  \<and> sublist ('' '' @ k @ ''='' @ dq @ v @ dq) (renderEl reg el indent))"
proof -
  note m = map_of_mergedAttributes [OF assms]
  have tag: "\<exists>rest. renderEl reg el indent =
             indent @ ''<'' @ el_type el
               @ concat (map (\<lambda>(k, v). '' '' @ k @ ''='' @ dq @ v @ dq) (attrEntries reg el))
               @ rest
           \<and> (rest = '' />'' \<or> (\<exists>inner. rest = ''>'' @ inner @ ''</'' @ el_type el @ ''>''))"
    using renderEl_tag [of reg el indent] by (simp only: attrStr_concat)
  have iff: "(k, v) \<in> set (attrEntries reg el) \<longleftrightarrow>
               v \<noteq> [] \<and>
               (case map_of (attributes el) k of
                  Some w \<Rightarrow> w = v
                | None \<Rightarrow> map_of (registryDefaults reg (el_type el)) k = Some v)" for v
    by (simp add: attrEntries_iff m split: option.splits)
  have blank: "k \<notin> fst ` set (attrEntries reg el)" if "map_of (attributes el) k = Some []"
  proof
    assume "k \<in> fst ` set (attrEntries reg el)"
    then obtain w where "(k, w) \<in> set (attrEntries reg el)"
      by auto
    with that show False
      by (auto simp: iff)
  qed
  have c1: "map_of (mergedAttributes reg el) k =
           (case map_of (attributes el) k of
              Some v \<Rightarrow> Some v
            | None \<Rightarrow> map_of (registryDefaults reg (el_type el)) k)"
    by (rule m)
  have c2: "attrEntries reg el = filter (\<lambda>(k, v). v \<noteq> []) (mergedAttributes reg el)"
    by (rule attrEntries_def)
  have c3: "distinct (map fst (attrEntries reg el))"
    by (rule distinct_attrEntries)
  have c6: "(k, v) \<in> set (attrEntries reg el)
      \<and> sublist ('' '' @ k @ ''='' @ dq @ v @ dq) (renderEl reg el indent)"
    if h: "map_of (attributes el) k = None
               \<and> map_of (registryDefaults reg (el_type el)) k = Some v \<and> v \<noteq> []"
  proof -
    from h have mem: "(k, v) \<in> set (attrEntries reg el)"
      by (simp add: iff)
    from mem have "sublist ((\<lambda>(k, v). '' '' @ k @ ''='' @ dq @ v @ dq) (k, v))
        (concat (map (\<lambda>(k, v). '' '' @ k @ ''='' @ dq @ v @ dq) (attrEntries reg el)))"
      by (rule sublist_concat_map)
    then have s: "sublist ('' '' @ k @ ''='' @ dq @ v @ dq)
        (concat (map (\<lambda>(k, v). '' '' @ k @ ''='' @ dq @ v @ dq) (attrEntries reg el)))"
      by simp
    from tag obtain rest where "renderEl reg el indent =
             (indent @ ''<'' @ el_type el)
               @ concat (map (\<lambda>(k, v). '' '' @ k @ ''='' @ dq @ v @ dq) (attrEntries reg el))
               @ rest"
      by auto
    then have "sublist
        (concat (map (\<lambda>(k, v). '' '' @ k @ ''='' @ dq @ v @ dq) (attrEntries reg el)))
        (renderEl reg el indent)"
      by (simp only: sublist_appendI)
    with s have "sublist ('' '' @ k @ ''='' @ dq @ v @ dq) (renderEl reg el indent)"
      by (rule sublist_trans)
    with mem show ?thesis
      by (rule conjI)
  qed
  from tag c1 c2 c3 iff [of v] blank c6 show ?thesis
    by blast
qed

theorem effective_attribute_emission_witness:
  "distinct (map fst (attributes exLiveText))
   \<and> distinct (map fst (registryDefaults exRegistry (el_type exLiveText)))
   \<and> registryDefaults exRegistry (el_type exLiveText)
       = [(''a'', ''1''), (''b'', ''2''), (''c'', ''4'')]
   \<and> attributes exLiveText = [(''b'', ''3''), (''c'', [])]
   \<and> attrEntries exRegistry exLiveText = [(''a'', ''1''), (''b'', ''3'')]
   \<and> (''a'', ''1'') \<in> set (attrEntries exRegistry exLiveText)
   \<and> sublist ('' a='' @ dq @ ''1'' @ dq) (renderEl exRegistry exLiveText ''    '')
   \<and> ''c'' \<notin> fst ` set (attrEntries exRegistry exLiveText)
   \<and> renderEl exRegistry exLiveText ''    ''
       = ''    <mj-text a='' @ dq @ ''1'' @ dq @ '' b='' @ dq @ ''3'' @ dq @ ''></mj-text>''"
proof -
  have d1: "distinct (map fst (attributes exLiveText))"
    by (simp add: exLiveText_def)
  have defaults: "registryDefaults exRegistry (el_type exLiveText)
       = [(''a'', ''1''), (''b'', ''2''), (''c'', ''4'')]"
    by (simp add: exLiveText_def exRegistry_def registryDefaults_def)
  then have d2: "distinct (map fst (registryDefaults exRegistry (el_type exLiveText)))"
    by simp
  have live: "attributes exLiveText = [(''b'', ''3''), (''c'', [])]"
    by (simp add: exLiveText_def)
  note t = effective_attribute_emission [OF d1 d2, THEN conjunct2]
  have entries: "attrEntries exRegistry exLiveText = [(''a'', ''1''), (''b'', ''3'')]"
    by (simp add: t [THEN conjunct2, THEN conjunct1] mergedAttributes_def defaults live
          spread_def)
  have "(''a'', ''1'') \<in> set (attrEntries exRegistry exLiveText)
      \<and> sublist ('' '' @ ''a'' @ ''='' @ dq @ ''1'' @ dq)
          (renderEl exRegistry exLiveText ''    '')"
    by (rule t [of "''a''" "''1''" "''    ''", THEN conjunct2, THEN conjunct2,
          THEN conjunct2, THEN conjunct2, THEN conjunct2, THEN mp]) (simp add: live defaults)
  then have a: "(''a'', ''1'') \<in> set (attrEntries exRegistry exLiveText)"
    and a': "sublist ('' a='' @ dq @ ''1'' @ dq) (renderEl exRegistry exLiveText ''    '')"
    by simp_all
  have c: "''c'' \<notin> fst ` set (attrEntries exRegistry exLiveText)"
    by (rule t [of "''c''", THEN conjunct2, THEN conjunct2, THEN conjunct2,
          THEN conjunct2, THEN conjunct1, THEN mp]) (simp add: live)
  have r: "renderEl exRegistry exLiveText ''    ''
       = ''    <mj-text a='' @ dq @ ''1'' @ dq @ '' b='' @ dq @ ''3'' @ dq @ ''></mj-text>''"
  proof -
    have sel: "el_type exLiveText = ''mj-text''" "children exLiveText = None"
      "content exLiveText = None"
      by (simp_all add: exLiveText_def)
    have "attrStr exRegistry exLiveText = '' a='' @ dq @ ''1'' @ dq @ '' b='' @ dq @ ''3'' @ dq"
      by (simp add: attrStr_def entries dq_def)
    then show ?thesis
      by (simp add: renderEl_open sel SELF_CLOSING_def filterBoolean_def dq_def)
  qed
  from d1 d2 defaults live entries a a' c r show ?thesis
    by (intro conjI)
qed

































end
